theory Spec2Isabelle
  imports Main
begin

section \<open>Values, accessors and the external formatter\<close>

text \<open>
  The type \<open>Value\<close> of the source: what can be handed to postgres directly. The code
  under study never computes with a number, a date or a buffer, it only carries them;
  numbers are integers here, a date is its timestamp, a buffer its bytes. \<open>VBuiltin\<close>
  is not a \<open>Value\<close> by the type: it is a function or an object of the run time, by its
  name, which reading a key of an object can still yield.
\<close>

datatype val =
    VNull
  | VUndefined
  | VString string
  | VNumber int
  | VDate int
  | VBuffer "nat list"
  | VArray "val list"
  | VObject "(string \<times> val) list"
  | VBuiltin string

text \<open>\<open>Accessor<A>\<close> reads a value from the arguments, \<open>Mapper<I, A>\<close> maps between
  argument types.\<close>

type_synonym 'a Accessor = "'a \<Rightarrow> val"

type_synonym ('i, 'a) Mapper = "'i \<Rightarrow> 'a"

text \<open>
  The module \<open>pg-format\<close> is imported, not part of the repository: its three functions
  \<open>format.string\<close>, \<open>format.literal\<close> and \<open>format.ident\<close> are parameters of the model.
  \<open>format.string\<close> receives whatever a \<open>StringFragment\<close> holds, which is the JavaScript
  \<open>undefined\<close> (\<open>None\<close>) when the template array was read out of range.
\<close>

record pg_format =
  format_string :: "string option \<Rightarrow> string"
  format_literal :: "val \<Rightarrow> string"
  format_ident :: "string \<Rightarrow> string"

section \<open>Numbers in template literals\<close>

text \<open>\<open>`$${argOffset}`\<close> and \<open>`Row ${index} is invalid`\<close> print a non-negative
  integer in decimal.\<close>

definition digit_char :: "nat \<Rightarrow> char" where
  "digit_char d = ''0123456789'' ! (d mod 10)"

function string_of_nat :: "nat \<Rightarrow> string" where
  "string_of_nat n =
     (if n < 10 then [digit_char n] else string_of_nat (n div 10) @ [digit_char (n mod 10)])"
  by pat_completeness auto
termination
  by (relation "measure id") auto

declare string_of_nat.simps [simp del]

section \<open>Fragments\<close>

text \<open>
  The abstract class \<open>Fragment<A>\<close> and its subclasses, one constructor per class with
  the fields of the class. A \<open>QueryFragment\<close> holds further fragments.
\<close>

datatype 'a fragment =
    StringFragment "string option"
  | ArgumentFragment "'a Accessor"
  | QueryFragment "'a fragment list"
  | LiteralFragment val
  | IdentifierFragment string
  | ValueFragment val

text \<open>The method \<open>map\<close> of each class.\<close>

fun fragment_map :: "'a fragment \<Rightarrow> ('i, 'a) Mapper \<Rightarrow> 'i fragment" where
  "fragment_map (StringFragment text) mapper = StringFragment text"
| "fragment_map (ArgumentFragment accessor) mapper =
     ArgumentFragment (\<lambda>values. accessor (mapper values))"
| "fragment_map (QueryFragment fragments) mapper =
     QueryFragment (map (\<lambda>fragment. fragment_map fragment mapper) fragments)"
| "fragment_map (LiteralFragment v) mapper = LiteralFragment v"
| "fragment_map (IdentifierFragment name) mapper = IdentifierFragment name"
| "fragment_map (ValueFragment v) mapper = ValueFragment v"

text \<open>
  The method \<open>prepare\<close> of each class and \<open>QueryFragment.staticPrepare\<close>. The
  \<open>forEach\<close> of \<open>staticPrepare\<close> is the loop \<open>staticPrepare_loop\<close> over the fragments
  still to visit, with the two arrays \<open>queryStrings\<close> and \<open>accessors\<close> it pushes to.
\<close>

fun prepare :: "pg_format \<Rightarrow> 'a fragment \<Rightarrow> nat \<Rightarrow> string \<times> 'a Accessor list"
  and staticPrepare ::
    "pg_format \<Rightarrow> 'a fragment list \<Rightarrow> nat \<Rightarrow> string \<times> 'a Accessor list"
  and staticPrepare_loop ::
    "pg_format \<Rightarrow> 'a fragment list \<Rightarrow> nat \<Rightarrow> string list \<Rightarrow> 'a Accessor list
      \<Rightarrow> string list \<times> 'a Accessor list"
where
  "prepare fmt (StringFragment text) argOffset = (format_string fmt text, [])"
| "prepare fmt (ArgumentFragment accessor) argOffset =
     (CHR ''$'' # string_of_nat argOffset, [accessor])"
| "prepare fmt (QueryFragment fragments) argOffset = staticPrepare fmt fragments argOffset"
| "prepare fmt (LiteralFragment v) argOffset = (format_literal fmt v, [])"
| "prepare fmt (IdentifierFragment name) argOffset = (format_ident fmt name, [])"
| "prepare fmt (ValueFragment v) argOffset =
     (CHR ''$'' # string_of_nat argOffset, [\<lambda>_. v])"
| "staticPrepare fmt fragments argOffset =
     (case staticPrepare_loop fmt fragments argOffset [] [] of
        (queryStrings, accessors) \<Rightarrow> (concat queryStrings, accessors))"
| "staticPrepare_loop fmt [] argOffset queryStrings accessors = (queryStrings, accessors)"
| "staticPrepare_loop fmt (fragment # rest) argOffset queryStrings accessors =
     (case prepare fmt fragment (argOffset + length accessors) of
        (fragmentString, fragmentAccessors) \<Rightarrow>
          staticPrepare_loop fmt rest argOffset
            (queryStrings @ [fragmentString]) (accessors @ fragmentAccessors))"

section \<open>The template tag \<open>sql\<close>\<close>

text \<open>
  \<open>sql\<close> returns the function \<open>build\<close>, a closure over the array \<open>fragments\<close> that
  carries the method \<open>query\<close> and the marker \<open>isBuildMethodField\<close>: a \<open>BuildMethod\<close> is
  that array. Calling it without a mapper is \<open>build\<close>, with one \<open>build_mapper\<close>.
\<close>

datatype 'a BuildMethod = BuildMethod "'a fragment list"

fun build :: "'a BuildMethod \<Rightarrow> 'a fragment" where
  "build (BuildMethod fragments) = QueryFragment fragments"

fun build_mapper :: "'a BuildMethod \<Rightarrow> ('i, 'a) Mapper \<Rightarrow> 'i fragment" where
  "build_mapper (BuildMethod fragments) mapper =
     QueryFragment (map (\<lambda>fragment. fragment_map fragment mapper) fragments)"

text \<open>
  What a template may embed, \<open>Value | BuildMethod<A> | Accessor<A> | Fragment<A>\<close>,
  told apart at run time by \<open>instanceof Fragment\<close>, \<open>typeof source === "function"\<close>
  and \<open>isBuildMethod\<close>; \<open>Fragment.from\<close> tests them in this order.
\<close>

datatype 'a source =
    SrcFragment "'a fragment"
  | SrcBuildMethod "'a BuildMethod"
  | SrcAccessor "'a Accessor"
  | SrcValue val

fun Fragment_from :: "'a source \<Rightarrow> 'a fragment" where
  "Fragment_from (SrcFragment fragment) = fragment"
| "Fragment_from (SrcBuildMethod source) = build source"
| "Fragment_from (SrcAccessor source) = ArgumentFragment source"
| "Fragment_from (SrcValue source) = ValueFragment source"

text \<open>Reading an array at an index: \<open>undefined\<close> (\<open>None\<close>) out of range.\<close>

definition js_index :: "'x list \<Rightarrow> nat \<Rightarrow> 'x option" where
  "js_index xs k = (if k < length xs then Some (xs ! k) else None)"

definition sql_fragments :: "string list \<Rightarrow> 'a source list \<Rightarrow> 'a fragment list" where
  "sql_fragments strings args =
     StringFragment (js_index strings 0) #
     concat (map (\<lambda>(index, arg).
                    [Fragment_from arg, StringFragment (js_index strings (index + 1))])
               (enumerate 0 args))"

definition sql :: "string list \<Rightarrow> 'a source list \<Rightarrow> 'a BuildMethod" where
  "sql strings args = BuildMethod (sql_fragments strings args)"

section \<open>The method \<open>query\<close>\<close>

text \<open>
  The argument of a query is an object (\<open>A extends object\<close>), written as an object
  literal: \<open>obj\<close> is the map of its own keys, \<open>{}\<close> the empty map, and its prototype is
  \<open>Object.prototype\<close>. Reading a key, \<open>args[name]\<close>, gives the object's own value if it
  has the key and follows the prototype chain if not: \<open>Object_prototype\<close> lists what
  ECMAScript, with its Annex B, puts there, the accessor \<open>__proto__\<close> giving the
  prototype itself. A key found nowhere reads as \<open>undefined\<close>.
\<close>

type_synonym obj = "string \<rightharpoonup> val"

definition Object_prototype :: "string \<rightharpoonup> val" where
  "Object_prototype = map_of
     [(''constructor'', VBuiltin ''Object''),
      (''hasOwnProperty'', VBuiltin ''Object.prototype.hasOwnProperty''),
      (''isPrototypeOf'', VBuiltin ''Object.prototype.isPrototypeOf''),
      (''propertyIsEnumerable'', VBuiltin ''Object.prototype.propertyIsEnumerable''),
      (''toLocaleString'', VBuiltin ''Object.prototype.toLocaleString''),
      (''toString'', VBuiltin ''Object.prototype.toString''),
      (''valueOf'', VBuiltin ''Object.prototype.valueOf''),
      (''__proto__'', VBuiltin ''Object.prototype''),
      (''__defineGetter__'', VBuiltin ''Object.prototype.__defineGetter__''),
      (''__defineSetter__'', VBuiltin ''Object.prototype.__defineSetter__''),
      (''__lookupGetter__'', VBuiltin ''Object.prototype.__lookupGetter__''),
      (''__lookupSetter__'', VBuiltin ''Object.prototype.__lookupSetter__'')]"

definition obj_get :: "obj \<Rightarrow> string \<Rightarrow> val" where
  "obj_get args key =
     (case args key of
        Some v \<Rightarrow> v
      | None \<Rightarrow> (case Object_prototype key of Some v \<Rightarrow> v | None \<Rightarrow> VUndefined))"

text \<open>
  The client is a parameter: \<open>conn.query(config)\<close> resolves to rows or rejects with an
  error of its own. A rejected promise and a thrown error are \<open>Inl\<close>.
\<close>

datatype error = TypeError string | ClientError string

record QueryConfig =
  config_name :: string
  config_text :: string
  config_values :: "val list"

type_synonym 'row Client = "QueryConfig \<Rightarrow> error + 'row list"

record 'row QueryOptions =
  validate :: "('row \<Rightarrow> bool) option"

text \<open>\<open>ret.rows.map((row, index) => ...)\<close> of the validating branch: the callback throws
  at the first row that the type guard rejects.\<close>

fun validate_rows :: "('row \<Rightarrow> bool) \<Rightarrow> nat \<Rightarrow> 'row list \<Rightarrow> error + 'row list" where
  "validate_rows guard index [] = Inr []"
| "validate_rows guard index (row # rest) =
     (if \<not> guard row then Inl (TypeError (''Row '' @ string_of_nat index @ '' is invalid''))
      else (case validate_rows guard (index + 1) rest of
              Inl e \<Rightarrow> Inl e
            | Inr rows \<Rightarrow> Inr (row # rows)))"

definition execute ::
  "'row Client \<Rightarrow> 'row QueryOptions option \<Rightarrow> string \<Rightarrow> string \<Rightarrow> obj Accessor list
    \<Rightarrow> obj option \<Rightarrow> error + 'row list" where
  "execute conn options name query accessors values_arg =
     (let values = (case values_arg of None \<Rightarrow> Map.empty | Some v \<Rightarrow> v);
          mappedValues = map (\<lambda>accessor. accessor values) accessors
      in case conn \<lparr>config_name = name, config_text = query, config_values = mappedValues\<rparr> of
           Inl e \<Rightarrow> Inl e
         | Inr rows \<Rightarrow>
             (case (case options of None \<Rightarrow> None | Some opts \<Rightarrow> validate opts) of
                Some guard \<Rightarrow> validate_rows guard 0 rows
              | None \<Rightarrow> Inr rows))"

text \<open>\<open>build.query(conn, options)\<close>; \<open>name\<close> is the result of \<open>uuid.v4()\<close>, drawn once
  for the query.\<close>

fun query ::
  "pg_format \<Rightarrow> string \<Rightarrow> obj BuildMethod \<Rightarrow> 'row Client \<Rightarrow> 'row QueryOptions option
    \<Rightarrow> obj option \<Rightarrow> error + 'row list" where
  "query fmt name (BuildMethod fragments) conn options =
     (case staticPrepare fmt fragments 1 of
        (query, accessors) \<Rightarrow> execute conn options name query accessors)"

section \<open>The argument shorthand \<open>a\<close>\<close>

text \<open>
  What \<open>a\<close> may receive at run time: a string, an array of strings (the first argument
  of a tag call), or anything else, \<open>undefined\<close> of a call with no argument among it.
\<close>

datatype a_name = NameString string | NameArray "string list" | NameOther

fun a_builder :: "a_name \<Rightarrow> error + obj fragment" where
  "a_builder (NameString name) = Inr (ArgumentFragment (\<lambda>args. obj_get args name))"
| "a_builder (NameArray name) =
     (if length name = 1 then Inr (ArgumentFragment (\<lambda>args. obj_get args (name ! 0)))
      else Inl (TypeError ''Argument builder received invalid arguments''))"
| "a_builder NameOther = Inl (TypeError ''Argument builder received invalid arguments'')"

section \<open>The edition of \<open>src/index.ts\<close>\<close>

text \<open>
  \<open>src/index.ts\<close> is another edition of the same module. It has no \<open>ValueFragment\<close>:
  \<open>Fragment.from\<close> wraps a plain value in an \<open>ArgumentFragment\<close> with a constant
  accessor. Its \<open>staticPrepare\<close> calls \<open>accessors.concat(fragmentAccessors)\<close>, which
  returns a new array and leaves \<open>accessors\<close> as it was, where the edition above calls
  \<open>accessors.push(...fragmentAccessors)\<close>; and \<open>query\<close> prepares from offset 0.
\<close>

datatype 'a index_fragment =
    IndexStringFragment "string option"
  | IndexArgumentFragment "'a Accessor"
  | IndexQueryFragment "'a index_fragment list"
  | IndexLiteralFragment val
  | IndexIdentifierFragment string

fun index_prepare ::
    "pg_format \<Rightarrow> 'a index_fragment \<Rightarrow> nat \<Rightarrow> string \<times> 'a Accessor list"
  and index_staticPrepare ::
    "pg_format \<Rightarrow> 'a index_fragment list \<Rightarrow> nat \<Rightarrow> string \<times> 'a Accessor list"
  and index_staticPrepare_loop ::
    "pg_format \<Rightarrow> 'a index_fragment list \<Rightarrow> nat \<Rightarrow> string list \<Rightarrow> 'a Accessor list
      \<Rightarrow> string list \<times> 'a Accessor list"
where
  "index_prepare fmt (IndexStringFragment text) argOffset = (format_string fmt text, [])"
| "index_prepare fmt (IndexArgumentFragment accessor) argOffset =
     (CHR ''$'' # string_of_nat argOffset, [accessor])"
| "index_prepare fmt (IndexQueryFragment fragments) argOffset =
     index_staticPrepare fmt fragments argOffset"
| "index_prepare fmt (IndexLiteralFragment v) argOffset = (format_literal fmt v, [])"
| "index_prepare fmt (IndexIdentifierFragment name) argOffset = (format_ident fmt name, [])"
| "index_staticPrepare fmt fragments argOffset =
     (case index_staticPrepare_loop fmt fragments argOffset [] [] of
        (queryStrings, accessors) \<Rightarrow> (concat queryStrings, accessors))"
| "index_staticPrepare_loop fmt [] argOffset queryStrings accessors =
     (queryStrings, accessors)"
| "index_staticPrepare_loop fmt (fragment # rest) argOffset queryStrings accessors =
     (case index_prepare fmt fragment (argOffset + length accessors) of
        (fragmentString, fragmentAccessors) \<Rightarrow>
          index_staticPrepare_loop fmt rest argOffset
            (queryStrings @ [fragmentString]) accessors)"

datatype 'a index_BuildMethod = IndexBuildMethod "'a index_fragment list"

fun index_build :: "'a index_BuildMethod \<Rightarrow> 'a index_fragment" where
  "index_build (IndexBuildMethod fragments) = IndexQueryFragment fragments"

datatype 'a index_source =
    IndexSrcFragment "'a index_fragment"
  | IndexSrcBuildMethod "'a index_BuildMethod"
  | IndexSrcAccessor "'a Accessor"
  | IndexSrcValue val

fun index_Fragment_from :: "'a index_source \<Rightarrow> 'a index_fragment" where
  "index_Fragment_from (IndexSrcFragment fragment) = fragment"
| "index_Fragment_from (IndexSrcBuildMethod source) = index_build source"
| "index_Fragment_from (IndexSrcAccessor source) = IndexArgumentFragment source"
| "index_Fragment_from (IndexSrcValue source) = IndexArgumentFragment (\<lambda>_. source)"

definition index_sql_fragments ::
  "string list \<Rightarrow> 'a index_source list \<Rightarrow> 'a index_fragment list" where
  "index_sql_fragments strings args =
     IndexStringFragment (js_index strings 0) #
     concat (map (\<lambda>(index, arg).
                    [index_Fragment_from arg,
                     IndexStringFragment (js_index strings (index + 1))])
               (enumerate 0 args))"

section \<open>Placeholders of a query text\<close>

text \<open>
  A placeholder of a query text is a \<open>$\<close> followed by digits, as many as there are; any
  other character stands for itself. \<open>tokens\<close> reads a text from left to right,
  \<open>placeholders\<close> lists the numbers of its placeholders in that order, and
  \<open>shift_placeholders d\<close> is the text with \<open>d\<close> added to each of them.
\<close>

definition is_digit :: "char \<Rightarrow> bool" where
  "is_digit c \<longleftrightarrow> c \<in> set ''0123456789''"

definition digit_val :: "char \<Rightarrow> nat" where
  "digit_val c = length (takeWhile (\<lambda>d. d \<noteq> c) ''0123456789'')"

definition nat_of_string :: "string \<Rightarrow> nat" where
  "nat_of_string ds = foldl (\<lambda>n c. 10 * n + digit_val c) 0 ds"

datatype token = Lit char | Placeholder nat

function tokens :: "string \<Rightarrow> token list" where
  "tokens [] = []"
| "tokens (c # cs) =
     (if c = CHR ''$'' \<and> takeWhile is_digit cs \<noteq> []
      then Placeholder (nat_of_string (takeWhile is_digit cs)) # tokens (dropWhile is_digit cs)
      else Lit c # tokens cs)"
  by pat_completeness auto
termination
  by (relation "measure length") (auto simp: length_dropWhile_le less_Suc_eq_le)

fun placeholder_numbers :: "token list \<Rightarrow> nat list" where
  "placeholder_numbers [] = []"
| "placeholder_numbers (Lit c # ts) = placeholder_numbers ts"
| "placeholder_numbers (Placeholder n # ts) = n # placeholder_numbers ts"

definition placeholders :: "string \<Rightarrow> nat list" where
  "placeholders s = placeholder_numbers (tokens s)"

fun render_shifted :: "int \<Rightarrow> token \<Rightarrow> string" where
  "render_shifted d (Lit c) = [c]"
| "render_shifted d (Placeholder n) = CHR ''$'' # string_of_nat (nat (int n + d))"

definition shift_placeholders :: "int \<Rightarrow> string \<Rightarrow> string" where
  "shift_placeholders d s = concat (map (render_shifted d) (tokens s))"

section \<open>The pieces of a prepared text\<close>

text \<open>
  What \<open>prepare\<close> puts together, in the words of the specification: the pieces of a
  fragment from left to right, a piece being text of the formatter or a placeholder yet
  without a number (\<open>pieces\<close>), and the text that numbers the placeholders of such a
  list from an offset on (\<open>number_from\<close>).
\<close>

datatype piece = Raw string | Hole

fun pieces :: "pg_format \<Rightarrow> 'a fragment \<Rightarrow> piece list" where
  "pieces fmt (StringFragment text) = [Raw (format_string fmt text)]"
| "pieces fmt (ArgumentFragment accessor) = [Hole]"
| "pieces fmt (QueryFragment fragments) = concat (map (pieces fmt) fragments)"
| "pieces fmt (LiteralFragment v) = [Raw (format_literal fmt v)]"
| "pieces fmt (IdentifierFragment name) = [Raw (format_ident fmt name)]"
| "pieces fmt (ValueFragment v) = [Hole]"

fun holes :: "piece list \<Rightarrow> nat" where
  "holes [] = 0"
| "holes (Raw s # ps) = holes ps"
| "holes (Hole # ps) = Suc (holes ps)"

fun number_from :: "nat \<Rightarrow> piece list \<Rightarrow> string" where
  "number_from k [] = []"
| "number_from k (Raw s # ps) = s @ number_from k ps"
| "number_from k (Hole # ps) = (CHR ''$'' # string_of_nat k) @ number_from (Suc k) ps"

text \<open>
  Reading the placeholders back from a text needs two things of the text that the
  formatter contributes: it holds no \<open>$\<close>, so that no placeholder is written in it, and
  where it comes next after a placeholder it does not start with a digit, so that it
  does not make the number longer. \<open>readable after ps\<close> says so of the pieces \<open>ps\<close>,
  \<open>after\<close> telling whether a placeholder stands right before them; \<open>inert fmt f\<close> says
  so of the pieces of the fragment \<open>f\<close>.
\<close>

definition no_leading_digit :: "string \<Rightarrow> bool" where
  "no_leading_digit s = (case s of [] \<Rightarrow> True | c # _ \<Rightarrow> \<not> is_digit c)"

fun readable :: "bool \<Rightarrow> piece list \<Rightarrow> bool" where
  "readable after [] = True"
| "readable after (Hole # ps) = readable True ps"
| "readable after (Raw s # ps) =
     (CHR ''$'' \<notin> set s \<and> (after \<longrightarrow> no_leading_digit s) \<and> readable (after \<and> s = []) ps)"

definition inert :: "pg_format \<Rightarrow> 'a fragment \<Rightarrow> bool" where
  "inert fmt f = readable False (pieces fmt f)"

section \<open>Instances of the formatter\<close>

text \<open>
  \<open>format.string\<close> of \<open>pg-format\<close> is the conversion \<open>%s\<close>: given a string it returns
  the string as it is. \<open>string_verbatim fmt\<close> says this of the parameter \<open>fmt\<close>, and
  \<open>verbatim_format literal ident\<close> is a formatter of this kind, whatever its two other
  functions are.
\<close>

definition string_verbatim :: "pg_format \<Rightarrow> bool" where
  "string_verbatim fmt \<longleftrightarrow> (\<forall>s. format_string fmt (Some s) = s)"

definition verbatim_format :: "(val \<Rightarrow> string) \<Rightarrow> (string \<Rightarrow> string) \<Rightarrow> pg_format" where
  "verbatim_format literal ident =
     \<lparr>format_string = (\<lambda>text. case text of None \<Rightarrow> [] | Some s \<Rightarrow> s),
      format_literal = literal, format_ident = ident\<rparr>"

section \<open>Fragments as objects\<close>

text \<open>
  A fragment is an object, and what \<open>Fragment.from\<close> receives and returns are references
  to objects. Where that matters the heap is explicit: a list of the objects allocated
  so far, a reference being an index into it. \<open>new\<close> allocates; a \<open>QueryFragment\<close>
  holds the references of its fragments, and a build method the references in the array
  \<open>fragments\<close> of its closure. \<open>sql_fragments_ref\<close> builds that array as \<open>sql\<close> does,
  in the order in which the array literal and the callback of \<open>flatMap\<close> evaluate.
\<close>

type_synonym ref = nat

datatype 'a object =
    ObjStringFragment "string option"
  | ObjArgumentFragment "'a Accessor"
  | ObjQueryFragment "ref list"
  | ObjLiteralFragment val
  | ObjIdentifierFragment string
  | ObjValueFragment val

type_synonym 'a heap = "'a object list"

definition new :: "'a heap \<Rightarrow> 'a object \<Rightarrow> ref \<times> 'a heap" where
  "new h obj = (length h, h @ [obj])"

datatype 'a ref_source =
    RefFragment ref
  | RefBuildMethod "ref list"
  | RefAccessor "'a Accessor"
  | RefValue val

fun Fragment_from_ref :: "'a heap \<Rightarrow> 'a ref_source \<Rightarrow> ref \<times> 'a heap" where
  "Fragment_from_ref h (RefFragment source) = (source, h)"
| "Fragment_from_ref h (RefBuildMethod fragments) = new h (ObjQueryFragment fragments)"
| "Fragment_from_ref h (RefAccessor source) = new h (ObjArgumentFragment source)"
| "Fragment_from_ref h (RefValue source) = new h (ObjValueFragment source)"

fun index_Fragment_from_ref :: "'a heap \<Rightarrow> 'a ref_source \<Rightarrow> ref \<times> 'a heap" where
  "index_Fragment_from_ref h (RefFragment source) = (source, h)"
| "index_Fragment_from_ref h (RefBuildMethod fragments) = new h (ObjQueryFragment fragments)"
| "index_Fragment_from_ref h (RefAccessor source) = new h (ObjArgumentFragment source)"
| "index_Fragment_from_ref h (RefValue source) = new h (ObjArgumentFragment (\<lambda>_. source))"

fun sql_flatMap_ref ::
  "'a heap \<Rightarrow> string list \<Rightarrow> nat \<Rightarrow> 'a ref_source list \<Rightarrow> ref list \<times> 'a heap" where
  "sql_flatMap_ref h strings index [] = ([], h)"
| "sql_flatMap_ref h strings index (arg # args) =
     (case Fragment_from_ref h arg of
        (fragment, h1) \<Rightarrow>
          (case new h1 (ObjStringFragment (js_index strings (index + 1))) of
             (string, h2) \<Rightarrow>
               (case sql_flatMap_ref h2 strings (index + 1) args of
                  (rest, h3) \<Rightarrow> (fragment # string # rest, h3))))"

definition sql_fragments_ref ::
  "'a heap \<Rightarrow> string list \<Rightarrow> 'a ref_source list \<Rightarrow> ref list \<times> 'a heap" where
  "sql_fragments_ref h strings args =
     (case new h (ObjStringFragment (js_index strings 0)) of
        (first, h0) \<Rightarrow>
          (case sql_flatMap_ref h0 strings 0 args of
             (rest, h1) \<Rightarrow> (first # rest, h1)))"

text \<open>
  The fragment that a reference stands for, read from the heap down to the depth \<open>d\<close>,
  and the source that a source of references stands for.
\<close>

fun fragment_at :: "nat \<Rightarrow> 'a heap \<Rightarrow> ref \<Rightarrow> 'a fragment option" where
  "fragment_at 0 h r = None"
| "fragment_at (Suc d) h r =
     (if r < length h then
        (case h ! r of
           ObjStringFragment text \<Rightarrow> Some (StringFragment text)
         | ObjArgumentFragment accessor \<Rightarrow> Some (ArgumentFragment accessor)
         | ObjQueryFragment fragments \<Rightarrow>
             (if list_all (\<lambda>f. fragment_at d h f \<noteq> None) fragments
              then Some (QueryFragment (map (\<lambda>f. the (fragment_at d h f)) fragments))
              else None)
         | ObjLiteralFragment v \<Rightarrow> Some (LiteralFragment v)
         | ObjIdentifierFragment name \<Rightarrow> Some (IdentifierFragment name)
         | ObjValueFragment v \<Rightarrow> Some (ValueFragment v))
      else None)"

fun source_at :: "nat \<Rightarrow> 'a heap \<Rightarrow> 'a ref_source \<Rightarrow> 'a source option" where
  "source_at d h (RefFragment r) = map_option SrcFragment (fragment_at d h r)"
| "source_at d h (RefBuildMethod fragments) =
     (if list_all (\<lambda>f. fragment_at d h f \<noteq> None) fragments
      then Some (SrcBuildMethod (BuildMethod (map (\<lambda>f. the (fragment_at d h f)) fragments)))
      else None)"
| "source_at d h (RefAccessor accessor) = Some (SrcAccessor accessor)"
| "source_at d h (RefValue v) = Some (SrcValue v)"

section \<open>Decimal numbers and the placeholders of a text\<close>

lemma digit_cases:
  assumes "d < 10"
  shows "d = 0 \<or> d = 1 \<or> d = 2 \<or> d = 3 \<or> d = 4 \<or> d = 5 \<or> d = 6 \<or> d = 7 \<or> d = 8
    \<or> d = (9::nat)"
  using assms by arith

lemma digit_val_digit_char: "d < 10 \<Longrightarrow> digit_val (digit_char d) = d"
  by (drule digit_cases) (auto simp: digit_val_def digit_char_def)

lemma is_digit_digit_char: "is_digit (digit_char d)"
proof -
  have "d mod 10 < 10" by simp
  then show ?thesis
    unfolding digit_char_def by (rule disjE [OF digit_cases]) (auto simp: is_digit_def)
qed

lemma string_of_nat_digits: "c \<in> set (string_of_nat n) \<Longrightarrow> is_digit c"
proof (induction n rule: string_of_nat.induct)
  case (1 n)
  then show ?case
    by (subst (asm) (2) string_of_nat.simps) (auto simp: is_digit_digit_char split: if_splits)
qed

lemma string_of_nat_not_Nil: "string_of_nat n \<noteq> []"
  by (subst string_of_nat.simps) simp

lemma nat_of_string_of_nat: "nat_of_string (string_of_nat n) = n"
proof (induction n rule: string_of_nat.induct)
  case (1 n)
  show ?case
  proof (cases "n < 10")
    case True
    then show ?thesis
      by (subst string_of_nat.simps) (simp add: nat_of_string_def digit_val_digit_char)
  next
    case False
    with 1 have "nat_of_string (string_of_nat (n div 10)) = n div 10" by simp
    with False show ?thesis
      by (subst string_of_nat.simps) (simp add: nat_of_string_def digit_val_digit_char)
  qed
qed

lemma takeWhile_digit_append:
  "no_leading_digit ys \<Longrightarrow> takeWhile is_digit (cs @ ys) = takeWhile is_digit cs"
  by (induction cs) (auto simp: no_leading_digit_def split: list.splits)

lemma dropWhile_digit_append:
  "no_leading_digit ys \<Longrightarrow> dropWhile is_digit (cs @ ys) = dropWhile is_digit cs @ ys"
  by (induction cs) (auto simp: no_leading_digit_def split: list.splits)

lemma tokens_append:
  "no_leading_digit ys \<Longrightarrow> tokens (xs @ ys) = tokens xs @ tokens ys"
proof (induction xs rule: tokens.induct)
  case 1
  then show ?case by simp
next
  case (2 c cs)
  then show ?case
    by (simp add: takeWhile_digit_append dropWhile_digit_append)
qed

lemma tokens_placeholder: "tokens (CHR ''$'' # string_of_nat n) = [Placeholder n]"
proof -
  have all: "\<forall>c \<in> set (string_of_nat n). is_digit c"
    using string_of_nat_digits by blast
  have t: "takeWhile is_digit (string_of_nat n) = string_of_nat n"
    using all by (simp add: takeWhile_eq_all_conv)
  have d: "dropWhile is_digit (string_of_nat n) = []"
    using all by simp
  show ?thesis
    by (simp add: t d string_of_nat_not_Nil nat_of_string_of_nat)
qed

section \<open>The loop of \<open>staticPrepare\<close>\<close>

text \<open>The loop adds to its two arrays what it would have produced from empty ones, so
  \<open>staticPrepare\<close> unfolds along the list of fragments.\<close>

lemma staticPrepare_loop_acc:
  "staticPrepare_loop fmt fs k qs accs =
     (qs @ fst (staticPrepare_loop fmt fs (k + length accs) [] []),
      accs @ snd (staticPrepare_loop fmt fs (k + length accs) [] []))"
proof (induction fs arbitrary: k qs accs)
  case Nil
  show ?case by simp
next
  case (Cons f fs)
  obtain s a where p: "prepare fmt f (k + length accs) = (s, a)"
    by (cases "prepare fmt f (k + length accs)")
  let ?r = "staticPrepare_loop fmt fs (k + length accs + length a) [] []"
  have l: "staticPrepare_loop fmt (f # fs) k qs accs = ((qs @ [s]) @ fst ?r, (accs @ a) @ snd ?r)"
    using Cons.IH [of k "qs @ [s]" "accs @ a"] p by (simp add: add.assoc)
  have r: "staticPrepare_loop fmt (f # fs) (k + length accs) [] [] = ([s] @ fst ?r, a @ snd ?r)"
    using Cons.IH [of "k + length accs" "[s]" a] p by simp
  show ?case unfolding l r by simp
qed

lemma staticPrepare_Nil: "staticPrepare fmt [] k = ([], [])"
  by simp

lemma staticPrepare_Cons:
  "staticPrepare fmt (f # fs) k =
     (fst (prepare fmt f k) @ fst (staticPrepare fmt fs (k + length (snd (prepare fmt f k)))),
      snd (prepare fmt f k) @ snd (staticPrepare fmt fs (k + length (snd (prepare fmt f k)))))"
proof -
  obtain s a where p: "prepare fmt f k = (s, a)"
    by (cases "prepare fmt f k")
  show ?thesis
    using staticPrepare_loop_acc [of fmt fs k "[s]" a] p
    by (simp add: split_beta)
qed

declare staticPrepare.simps [simp del]

lemma accessors_offset:
  "snd (prepare fmt f k) = snd (prepare fmt f k')"
proof (induction f arbitrary: k k')
  case (QueryFragment fs)
  have "snd (staticPrepare fmt fs k) = snd (staticPrepare fmt fs k')" for k k'
    using QueryFragment
  proof (induction fs arbitrary: k k')
    case Nil
    show ?case by (simp add: staticPrepare_Nil)
  next
    case (Cons f fs)
    have h: "snd (prepare fmt f k) = snd (prepare fmt f k')"
      using Cons.prems by simp
    have t: "snd (staticPrepare fmt fs j) = snd (staticPrepare fmt fs j')" for j j'
      using Cons.IH Cons.prems by simp
    show ?case
      unfolding staticPrepare_Cons snd_conv h
      using t by simp
  qed
  then show ?case by simp
qed simp_all

section \<open>Prepared text as numbered pieces\<close>

lemma holes_append: "holes (ps @ qs) = holes ps + holes qs"
  by (induction ps rule: holes.induct) simp_all

lemma number_from_append:
  "number_from k (ps @ qs) = number_from k ps @ number_from (k + holes ps) qs"
  by (induction k ps rule: number_from.induct) simp_all

lemma staticPrepare_pieces_aux:
  assumes "\<And>f k. f \<in> set fs \<Longrightarrow>
     fst (prepare fmt f k) = number_from k (pieces fmt f)
     \<and> length (snd (prepare fmt f k)) = holes (pieces fmt f)"
  shows "fst (staticPrepare fmt fs k) = number_from k (concat (map (pieces fmt) fs))
     \<and> length (snd (staticPrepare fmt fs k)) = holes (concat (map (pieces fmt) fs))"
  using assms
proof (induction fs arbitrary: k)
  case Nil
  show ?case by (simp add: staticPrepare_Nil)
next
  case (Cons f fs)
  have h: "fst (prepare fmt f k) = number_from k (pieces fmt f)
     \<and> length (snd (prepare fmt f k)) = holes (pieces fmt f)"
    by (rule Cons.prems) simp
  have t: "fst (staticPrepare fmt fs j) = number_from j (concat (map (pieces fmt) fs))
     \<and> length (snd (staticPrepare fmt fs j)) = holes (concat (map (pieces fmt) fs))" for j
    by (rule Cons.IH) (simp add: Cons.prems)
  show ?case
    by (simp add: staticPrepare_Cons h t number_from_append holes_append)
qed

lemma prepare_pieces:
  "fst (prepare fmt f k) = number_from k (pieces fmt f)
   \<and> length (snd (prepare fmt f k)) = holes (pieces fmt f)"
proof (induction f arbitrary: k)
  case (QueryFragment fs)
  then show ?case
    using staticPrepare_pieces_aux [of fs fmt k] by simp
qed simp_all

section \<open>Placeholders of a prepared text\<close>

lemma no_leading_digit_dollar: "no_leading_digit (CHR ''$'' # s)"
  by (simp add: no_leading_digit_def is_digit_def)

lemma no_leading_digit_append_Cons: "s \<noteq> [] \<Longrightarrow> no_leading_digit (s @ r) = no_leading_digit s"
  by (cases s) (simp_all add: no_leading_digit_def)

lemma tokens_no_dollar_append: "CHR ''$'' \<notin> set s \<Longrightarrow> tokens (s @ r) = map Lit s @ tokens r"
  by (induction s) auto

lemma placeholder_numbers_append:
  "placeholder_numbers (ts @ us) = placeholder_numbers ts @ placeholder_numbers us"
  by (induction ts rule: placeholder_numbers.induct) simp_all

lemma placeholder_numbers_Lit: "placeholder_numbers (map Lit s) = []"
  by (induction s) simp_all

lemma render_shifted_Lit: "concat (map (render_shifted d \<circ> Lit) s) = s"
  by (induction s) simp_all

lemma number_from_no_leading_digit:
  "readable True ps \<Longrightarrow> no_leading_digit (number_from k ps)"
proof (induction ps arbitrary: k)
  case Nil
  show ?case by (simp add: no_leading_digit_def)
next
  case (Cons p ps)
  show ?case
  proof (cases p)
    case (Raw s)
    with Cons show ?thesis
      by (cases "s = []") (simp_all add: no_leading_digit_append_Cons)
  next
    case Hole
    then show ?thesis by (simp add: no_leading_digit_dollar)
  qed
qed

lemma tokens_number_from_Hole:
  assumes "readable True ps"
  shows "tokens (number_from k (Hole # ps)) = Placeholder k # tokens (number_from (Suc k) ps)"
  using tokens_append [OF number_from_no_leading_digit [OF assms], of "CHR ''$'' # string_of_nat k" "Suc k"]
  by (simp add: tokens_placeholder del: tokens.simps)

lemma placeholders_number_from:
  "readable after ps \<Longrightarrow> placeholders (number_from k ps) = [k ..< k + holes ps]"
proof (induction ps arbitrary: k after)
  case Nil
  show ?case by (simp add: placeholders_def)
next
  case (Cons p ps)
  show ?case
  proof (cases p)
    case (Raw s)
    with Cons.prems have "CHR ''$'' \<notin> set s" and "readable (after \<and> s = []) ps"
      by simp_all
    with Cons.IH [of "after \<and> s = []" k] Raw show ?thesis
      by (simp add: placeholders_def tokens_no_dollar_append placeholder_numbers_append
          placeholder_numbers_Lit del: tokens.simps)
  next
    case Hole
    with Cons.prems have r: "readable True ps" by simp
    have "placeholders (number_from k (Hole # ps)) = k # [Suc k ..< Suc k + holes ps]"
      using Cons.IH [OF r, of "Suc k"]
      by (simp add: placeholders_def tokens_number_from_Hole [OF r] del: tokens.simps number_from.simps)
    also have "\<dots> = [k ..< k + holes (Hole # ps)]"
      by (simp add: upt_conv_Cons)
    finally show ?thesis using Hole by simp
  qed
qed

lemma shift_number_from:
  "readable after ps \<Longrightarrow> 0 \<le> int k + d \<Longrightarrow>
     shift_placeholders d (number_from k ps) = number_from (nat (int k + d)) ps"
proof (induction ps arbitrary: k after)
  case Nil
  show ?case by (simp add: shift_placeholders_def)
next
  case (Cons p ps)
  show ?case
  proof (cases p)
    case (Raw s)
    with Cons.prems have "CHR ''$'' \<notin> set s" and "readable (after \<and> s = []) ps"
      by simp_all
    with Cons.IH [of "after \<and> s = []" k] Cons.prems(2) Raw show ?thesis
      by (simp add: shift_placeholders_def tokens_no_dollar_append render_shifted_Lit
          del: tokens.simps)
  next
    case Hole
    with Cons.prems have r: "readable True ps" by simp
    have s: "Suc (nat (int k + d)) = nat (int (Suc k) + d)"
      using Cons.prems(2) by simp
    have "0 \<le> int (Suc k) + d"
      using Cons.prems(2) by simp
    from Cons.IH [OF r this] show ?thesis
      unfolding Hole
      by (simp add: shift_placeholders_def tokens_number_from_Hole [OF r] s
          del: tokens.simps number_from.simps)
        (simp add: s)
  qed
qed

lemma prepare_placeholders:
  "inert fmt f \<Longrightarrow>
     placeholders (fst (prepare fmt f k)) = [k ..< k + length (snd (prepare fmt f k))]"
  using placeholders_number_from [of False "pieces fmt f" k]
  by (simp add: prepare_pieces inert_def)

lemma prepare_shift:
  assumes "inert fmt f"
  shows "fst (prepare fmt f k2) = shift_placeholders (int k2 - int k1) (fst (prepare fmt f k1))"
proof -
  have "shift_placeholders (int k2 - int k1) (number_from k1 (pieces fmt f)) =
          number_from (nat (int k1 + (int k2 - int k1))) (pieces fmt f)"
    using assms by (intro shift_number_from [of False]) (simp_all add: inert_def)
  then show ?thesis
    by (simp add: prepare_pieces)
qed

lemma string_verbatim_format: "string_verbatim (verbatim_format literal ident)"
  by (simp add: string_verbatim_def verbatim_format_def)

section \<open>Remapping\<close>

lemma staticPrepare_map_aux:
  assumes "\<And>f k. f \<in> set fs \<Longrightarrow>
     prepare fmt (fragment_map f m) k =
       (fst (prepare fmt f k), map (\<lambda>accessor values. accessor (m values)) (snd (prepare fmt f k)))"
  shows "staticPrepare fmt (map (\<lambda>f. fragment_map f m) fs) k =
       (fst (staticPrepare fmt fs k),
        map (\<lambda>accessor values. accessor (m values)) (snd (staticPrepare fmt fs k)))"
  using assms
proof (induction fs arbitrary: k)
  case Nil
  show ?case by (simp add: staticPrepare_Nil)
next
  case (Cons f fs)
  have h: "prepare fmt (fragment_map f m) k =
       (fst (prepare fmt f k), map (\<lambda>accessor values. accessor (m values)) (snd (prepare fmt f k)))"
    by (rule Cons.prems) simp
  have t: "staticPrepare fmt (map (\<lambda>f. fragment_map f m) fs) j =
       (fst (staticPrepare fmt fs j),
        map (\<lambda>accessor values. accessor (m values)) (snd (staticPrepare fmt fs j)))" for j
    by (rule Cons.IH) (simp add: Cons.prems)
  show ?case
    by (simp add: staticPrepare_Cons h t)
qed

lemma prepare_map:
  "prepare fmt (fragment_map f m) k =
     (fst (prepare fmt f k), map (\<lambda>accessor values. accessor (m values)) (snd (prepare fmt f k)))"
proof (induction f arbitrary: k)
  case (QueryFragment fs)
  then show ?case
    using staticPrepare_map_aux [of fs fmt m k] by simp
qed simp_all

lemma fragment_map_comp:
  "fragment_map (fragment_map f h) g = fragment_map f (\<lambda>values. h (g values))"
  by (induction f) simp_all

text \<open>
  Claim C4. Remapping composes: \<open>F\<close> remapped by \<open>h\<close> and the result by \<open>g\<close> is the
  fragment \<open>F\<close> remapped once by \<open>h\<close> after \<open>g\<close>, also when the first remapping is
  that of a build method called with \<open>h\<close>. The two prepare to the same text, which is
  the text of \<open>F\<close>, and for every argument \<open>i\<close> their accessors give the same values,
  those of the accessors of \<open>F\<close> at \<open>h (g i)\<close>.
\<close>

theorem map_composition:
  "fragment_map (fragment_map F h) g = fragment_map F (\<lambda>values. h (g values))
   \<and> fragment_map (build_mapper b h) g = build_mapper b (\<lambda>values. h (g values))
   \<and> fst (prepare fmt (fragment_map (fragment_map F h) g) k) =
       fst (prepare fmt (fragment_map F (\<lambda>values. h (g values))) k)
   \<and> map (\<lambda>accessor. accessor i) (snd (prepare fmt (fragment_map (fragment_map F h) g) k)) =
       map (\<lambda>accessor. accessor i) (snd (prepare fmt (fragment_map F (\<lambda>values. h (g values))) k))
   \<and> fst (prepare fmt (fragment_map (fragment_map F h) g) k) = fst (prepare fmt F k)
   \<and> map (\<lambda>accessor. accessor i) (snd (prepare fmt (fragment_map (fragment_map F h) g) k)) =
       map (\<lambda>accessor. accessor (h (g i))) (snd (prepare fmt F k))"
proof -
  have "fragment_map (build_mapper b h) g = build_mapper b (\<lambda>values. h (g values))"
    by (cases b) (simp add: fragment_map_comp)
  then show ?thesis
    by (simp add: fragment_map_comp prepare_map)
qed

section \<open>Leaves\<close>

text \<open>
  Claim C5. \<open>StringFragment.prepare\<close>, in both editions, returns what \<open>format.string\<close>
  makes of the stored text and no accessor, at every offset. A string that
  \<open>format.string\<close> returns as it is, as \<open>pg-format\<close> does, is therefore the text
  prepared: nothing is escaped and no placeholder is added.
\<close>

theorem StringFragment_prepare:
  "prepare fmt (StringFragment text) argOffset = (format_string fmt text, [])
   \<and> index_prepare fmt (IndexStringFragment text) argOffset = (format_string fmt text, [])
   \<and> (format_string fmt (Some s) = s \<longrightarrow>
        prepare fmt (StringFragment (Some s)) argOffset = (s, [])
        \<and> index_prepare fmt (IndexStringFragment (Some s)) argOffset = (s, []))"
  by simp

theorem StringFragment_prepare_witness:
  "\<forall>literal ident.
     format_string (verbatim_format literal ident) (Some ''SELECT $1 + 2 --'') =
       ''SELECT $1 + 2 --''
   \<and> prepare (verbatim_format literal ident) (StringFragment (Some ''SELECT $1 + 2 --'')) 7 =
       (''SELECT $1 + 2 --'', ([] :: obj Accessor list))
   \<and> index_prepare (verbatim_format literal ident)
         (IndexStringFragment (Some ''SELECT $1 + 2 --'')) 7 =
       (''SELECT $1 + 2 --'', ([] :: obj Accessor list))"
proof (intro allI)
  fix literal ident
  have h: "format_string (verbatim_format literal ident) (Some ''SELECT $1 + 2 --'') =
       ''SELECT $1 + 2 --''"
    by (simp add: verbatim_format_def)
  from StringFragment_prepare
    [of "verbatim_format literal ident" "Some ''SELECT $1 + 2 --''" 7 "''SELECT $1 + 2 --''"]
  have "prepare (verbatim_format literal ident) (StringFragment (Some ''SELECT $1 + 2 --'')) 7 =
       (''SELECT $1 + 2 --'', ([] :: obj Accessor list))
   \<and> index_prepare (verbatim_format literal ident)
         (IndexStringFragment (Some ''SELECT $1 + 2 --'')) 7 =
       (''SELECT $1 + 2 --'', ([] :: obj Accessor list))"
    using h by blast
  with h show "format_string (verbatim_format literal ident) (Some ''SELECT $1 + 2 --'') =
       ''SELECT $1 + 2 --''
   \<and> prepare (verbatim_format literal ident) (StringFragment (Some ''SELECT $1 + 2 --'')) 7 =
       (''SELECT $1 + 2 --'', ([] :: obj Accessor list))
   \<and> index_prepare (verbatim_format literal ident)
         (IndexStringFragment (Some ''SELECT $1 + 2 --'')) 7 =
       (''SELECT $1 + 2 --'', ([] :: obj Accessor list))"
    by blast
qed

text \<open>
  Claim C6. The shorthand \<open>a\<close>, given one key as a string or as an array of one string,
  returns an \<open>ArgumentFragment\<close> whose accessor reads that key of the arguments, as
  \<open>args[name]\<close> does: the object's own value, else what its prototype has, else
  \<open>undefined\<close>. Given an empty array, an array of two strings or more, or no string and
  no array at all, it throws its \<open>TypeError\<close>. The error is the result of \<open>a\<close> itself:
  no query is prepared or executed to reach it.
\<close>

theorem a_builder_arity:
  "a_builder (NameString key) = Inr (ArgumentFragment (\<lambda>args. obj_get args key))
   \<and> a_builder (NameArray [key]) = Inr (ArgumentFragment (\<lambda>args. obj_get args key))
   \<and> a_builder (NameArray []) = Inl (TypeError ''Argument builder received invalid arguments'')
   \<and> a_builder (NameArray (key # key' # keys)) =
        Inl (TypeError ''Argument builder received invalid arguments'')
   \<and> a_builder NameOther = Inl (TypeError ''Argument builder received invalid arguments'')
   \<and> obj_get (args(key \<mapsto> v)) key = v
   \<and> obj_get (args(key := None)) key =
        (case Object_prototype key of Some v \<Rightarrow> v | None \<Rightarrow> VUndefined)
   \<and> obj_get [''value'' \<mapsto> VNumber 3] ''value'' = VNumber 3
   \<and> obj_get Map.empty ''value'' = VUndefined
   \<and> obj_get Map.empty ''constructor'' = VBuiltin ''Object''
   \<and> obj_get [''constructor'' \<mapsto> VString ''x''] ''constructor'' = VString ''x''"
  by (simp add: obj_get_def Object_prototype_def)

section \<open>Offsets\<close>

text \<open>
  Claim C3. For every fragment \<open>F\<close> and offsets \<open>o1\<close>, \<open>o2\<close>, the text prepared at
  \<open>o2\<close> is the text prepared at \<open>o1\<close> with \<open>o2 - o1\<close> added to every placeholder
  number, and the two accessor lists have the same length and give the same values at
  the same argument. The two texts are the same pieces, the placeholders numbered from
  \<open>o1\<close> in the one and from \<open>o2\<close> in the other, and the accessor lists are equal. Read
  back from the two strings, the placeholders of the second are those of the first
  shifted by \<open>o2 - o1\<close> where the fragment is \<open>inert\<close>: the text that the formatter
  contributes holds no \<open>$\<close> and does not start with a digit right after a
  placeholder.
\<close>

theorem prepare_offset_shift:
  "fst (prepare fmt F o1) = number_from o1 (pieces fmt F)
   \<and> fst (prepare fmt F o2) = number_from o2 (pieces fmt F)
   \<and> snd (prepare fmt F o2) = snd (prepare fmt F o1)
   \<and> length (snd (prepare fmt F o2)) = length (snd (prepare fmt F o1))
   \<and> map (\<lambda>accessor. accessor x) (snd (prepare fmt F o2)) =
       map (\<lambda>accessor. accessor x) (snd (prepare fmt F o1))
   \<and> (inert fmt F \<longrightarrow>
        fst (prepare fmt F o2) = shift_placeholders (int o2 - int o1) (fst (prepare fmt F o1))
        \<and> placeholders (fst (prepare fmt F o2)) =
            map (\<lambda>n. nat (int n + (int o2 - int o1))) (placeholders (fst (prepare fmt F o1))))"
proof -
  have acc: "snd (prepare fmt F o2) = snd (prepare fmt F o1)"
    by (rule accessors_offset)
  have up: "map (\<lambda>n. nat (int n + (int o2 - int o1))) [o1 ..< o1 + m] = [o2 ..< o2 + m]" for m
    by (induction m) simp_all
  have "placeholders (fst (prepare fmt F o2)) =
           map (\<lambda>n. nat (int n + (int o2 - int o1))) (placeholders (fst (prepare fmt F o1)))"
    if "inert fmt F"
    using that up by (simp add: prepare_placeholders acc)
  then show ?thesis
    using prepare_shift [of fmt F o2 o1] acc prepare_pieces [of fmt F o1]
      prepare_pieces [of fmt F o2]
    by simp
qed

theorem prepare_offset_shift_witness:
  "\<forall>literal ident.
     inert (verbatim_format literal ident)
       (QueryFragment [StringFragment (Some ''a = ''), ValueFragment (VNumber 1),
          StringFragment (Some '' AND b = ''), ArgumentFragment (\<lambda>args. obj_get args ''b'')])
   \<and> fst (prepare (verbatim_format literal ident)
       (QueryFragment [StringFragment (Some ''a = ''), ValueFragment (VNumber 1),
          StringFragment (Some '' AND b = ''), ArgumentFragment (\<lambda>args. obj_get args ''b'')]) 1)
       = ''a = $1 AND b = $2''
   \<and> fst (prepare (verbatim_format literal ident)
       (QueryFragment [StringFragment (Some ''a = ''), ValueFragment (VNumber 1),
          StringFragment (Some '' AND b = ''), ArgumentFragment (\<lambda>args. obj_get args ''b'')]) 5)
       = ''a = $5 AND b = $6''
   \<and> shift_placeholders 4 ''a = $1 AND b = $2'' = ''a = $5 AND b = $6''
   \<and> map (\<lambda>accessor. accessor [''b'' \<mapsto> VNumber 7])
        (snd (prepare (verbatim_format literal ident)
       (QueryFragment [StringFragment (Some ''a = ''), ValueFragment (VNumber 1),
          StringFragment (Some '' AND b = ''), ArgumentFragment (\<lambda>args. obj_get args ''b'')]) 5))
       = [VNumber 1, VNumber 7]"
proof (intro allI)
  fix literal ident
  define fmt where "fmt = verbatim_format literal ident"
  define F :: "obj fragment" where
    "F = QueryFragment [StringFragment (Some ''a = ''), ValueFragment (VNumber 1),
          StringFragment (Some '' AND b = ''), ArgumentFragment (\<lambda>args. obj_get args ''b'')]"
  have h: "inert fmt F"
    by (simp add: fmt_def F_def inert_def verbatim_format_def no_leading_digit_def is_digit_def)
  have t1: "fst (prepare fmt F 1) = ''a = $1 AND b = $2''"
    by (simp add: fmt_def F_def verbatim_format_def staticPrepare_Cons staticPrepare_Nil
        string_of_nat.simps digit_char_def)
  have t5: "fst (prepare fmt F 5) = ''a = $5 AND b = $6''"
    by (simp add: fmt_def F_def verbatim_format_def staticPrepare_Cons staticPrepare_Nil
        string_of_nat.simps digit_char_def)
  have v1: "map (\<lambda>accessor. accessor [''b'' \<mapsto> VNumber 7]) (snd (prepare fmt F 1)) =
      [VNumber 1, VNumber 7]"
    by (simp add: fmt_def F_def staticPrepare_Cons staticPrepare_Nil obj_get_def)
  note t = prepare_offset_shift [of fmt F 1 5 "[''b'' \<mapsto> VNumber 7]"]
  have "fst (prepare fmt F 5) = shift_placeholders (int 5 - int 1) (fst (prepare fmt F 1))"
    using t h by blast
  then have sh: "shift_placeholders 4 ''a = $1 AND b = $2'' = ''a = $5 AND b = $6''"
    unfolding t1 t5 by simp
  have "snd (prepare fmt F 5) = snd (prepare fmt F 1)"
    using t by blast
  then have v5: "map (\<lambda>accessor. accessor [''b'' \<mapsto> VNumber 7]) (snd (prepare fmt F 5)) =
      [VNumber 1, VNumber 7]"
    using v1 by simp
  show "inert (verbatim_format literal ident)
       (QueryFragment [StringFragment (Some ''a = ''), ValueFragment (VNumber 1),
          StringFragment (Some '' AND b = ''), ArgumentFragment (\<lambda>args. obj_get args ''b'')])
   \<and> fst (prepare (verbatim_format literal ident)
       (QueryFragment [StringFragment (Some ''a = ''), ValueFragment (VNumber 1),
          StringFragment (Some '' AND b = ''), ArgumentFragment (\<lambda>args. obj_get args ''b'')]) 1)
       = ''a = $1 AND b = $2''
   \<and> fst (prepare (verbatim_format literal ident)
       (QueryFragment [StringFragment (Some ''a = ''), ValueFragment (VNumber 1),
          StringFragment (Some '' AND b = ''), ArgumentFragment (\<lambda>args. obj_get args ''b'')]) 5)
       = ''a = $5 AND b = $6''
   \<and> shift_placeholders 4 ''a = $1 AND b = $2'' = ''a = $5 AND b = $6''
   \<and> map (\<lambda>accessor. accessor [''b'' \<mapsto> VNumber 7])
        (snd (prepare (verbatim_format literal ident)
       (QueryFragment [StringFragment (Some ''a = ''), ValueFragment (VNumber 1),
          StringFragment (Some '' AND b = ''), ArgumentFragment (\<lambda>args. obj_get args ''b'')]) 5))
       = [VNumber 1, VNumber 7]"
    unfolding fmt_def [symmetric] F_def [symmetric]
    using h t1 t5 sh v5 by blast
qed

section \<open>The edition of \<open>src/index.ts\<close>: accessors of \<open>staticPrepare\<close>\<close>

lemma index_staticPrepare_loop_accessors:
  "snd (index_staticPrepare_loop fmt fs k qs accs) = accs"
  by (induction fs arbitrary: qs) (simp_all add: split_beta)

lemma index_staticPrepare_accessors: "snd (index_staticPrepare fmt fs k) = []"
  using index_staticPrepare_loop_accessors [of fmt fs k "[]" "[]"]
  by (simp add: split_beta)

text \<open>
  Claim C1. The accessor list that \<open>prepare\<close> returns has as many entries as the text
  has placeholders, in the same order, the placeholders numbered from the offset on
  without a gap, also for a \<open>QueryFragment\<close> with several fragments that carry
  placeholders. In the edition with \<open>ValueFragment\<close> this is \<open>prepare_pieces\<close>, and
  \<open>prepare_placeholders\<close> on the string. In \<open>src/index.ts\<close>
  it fails: \<open>staticPrepare\<close> returns no accessor at all, whatever its fragments are, and
  every placeholder gets the number of the offset. For the fragments of
  \<open>sql`INNER ${1} ${2}`\<close> prepared at 0 the text is \<open>INNER $0 $0\<close>, two placeholders
  both numbered 0, and the accessor list is empty.
\<close>

theorem index_staticPrepare_loses_accessors:
  "index_staticPrepare (verbatim_format literal ident)
     (index_sql_fragments [''INNER '', '' '', '''']
        [IndexSrcValue (VNumber 1), IndexSrcValue (VNumber 2)]) 0
     = (''INNER $0 $0'', [])
   \<and> placeholders ''INNER $0 $0'' = [0, 0]
   \<and> snd (index_staticPrepare fmt fragments k) = []"
proof -
  have "index_staticPrepare (verbatim_format literal ident)
     (index_sql_fragments [''INNER '', '' '', '''']
        [IndexSrcValue (VNumber 1), IndexSrcValue (VNumber 2)]) 0
     = (''INNER $0 $0'', [])"
    by (simp add: index_sql_fragments_def js_index_def verbatim_format_def
        string_of_nat.simps digit_char_def)
  moreover have "placeholders ''INNER $0 $0'' = [0, 0]"
    by (simp add: placeholders_def is_digit_def nat_of_string_def digit_val_def)
  ultimately show ?thesis
    by (simp add: index_staticPrepare_accessors del: index_staticPrepare.simps)
qed

section \<open>Templates\<close>

lemma flatMap_length:
  "length (concat (map (\<lambda>(index, arg). [F arg, S index]) (enumerate n args))) = 2 * length args"
  by (induction args arbitrary: n) simp_all

lemma flatMap_nth:
  "i < length args \<Longrightarrow>
     concat (map (\<lambda>(index, arg). [F arg, S index]) (enumerate n args)) ! (2 * i) = F (args ! i)
     \<and> concat (map (\<lambda>(index, arg). [F arg, S index]) (enumerate n args)) ! (2 * i + 1) = S (n + i)"
proof (induction args arbitrary: n i)
  case Nil
  then show ?case by simp
next
  case (Cons a args)
  show ?case
  proof (cases i)
    case 0
    then show ?thesis by simp
  next
    case (Suc j)
    with Cons.prems have "j < length args" by simp
    from Cons.IH [OF this, of "Suc n"] Suc show ?thesis by simp
  qed
qed

text \<open>
  Claim C8. For a template of the strings \<open>s\<^sub>0, \<dots>, s\<^sub>n\<close> and the \<open>n\<close> expressions
  \<open>e\<^sub>1, \<dots>, e\<^sub>n\<close>, \<open>sql\<close> builds \<open>2n + 1\<close> fragments: at the even position \<open>2i\<close> the
  \<open>StringFragment\<close> of \<open>s\<^sub>i\<close>, at the odd position \<open>2i + 1\<close> the fragment that
  \<open>Fragment.from\<close> makes of the expression after \<open>s\<^sub>i\<close>. The first is the
  \<open>StringFragment\<close> of \<open>s\<^sub>0\<close> and the last the one of \<open>s\<^sub>n\<close>, empty or not.
\<close>

theorem sql_fragments_alternate:
  assumes "length strings = Suc (length args)"
  shows "length (sql_fragments strings args) = 2 * length args + 1
    \<and> (\<forall>i \<le> length args. sql_fragments strings args ! (2 * i) = StringFragment (Some (strings ! i)))
    \<and> (\<forall>i < length args. sql_fragments strings args ! (2 * i + 1) = Fragment_from (args ! i))
    \<and> last (sql_fragments strings args) = StringFragment (Some (last strings))
    \<and> sql strings args = BuildMethod (sql_fragments strings args)"
proof -
  let ?body = "concat (map (\<lambda>(index, arg).
                    [Fragment_from arg, StringFragment (js_index strings (index + 1))])
               (enumerate 0 args))"
  have fr: "sql_fragments strings args = StringFragment (js_index strings 0) # ?body"
    by (simp add: sql_fragments_def)
  have len: "length ?body = 2 * length args"
    by (rule flatMap_length)
  have nth: "?body ! (2 * i) = Fragment_from (args ! i)
      \<and> ?body ! (2 * i + 1) = StringFragment (js_index strings (i + 1))" if "i < length args" for i
    using flatMap_nth [OF that, of Fragment_from "\<lambda>index. StringFragment (js_index strings (index + 1))" 0]
    by simp
  have even: "sql_fragments strings args ! (2 * i) = StringFragment (Some (strings ! i))"
    if "i \<le> length args" for i
  proof (cases i)
    case 0
    then show ?thesis using assms by (simp add: fr js_index_def)
  next
    case (Suc j)
    with that have j: "j < length args" by simp
    from nth [OF j] Suc j assms show ?thesis by (simp add: fr js_index_def)
  qed
  have odd: "sql_fragments strings args ! (2 * i + 1) = Fragment_from (args ! i)"
    if "i < length args" for i
    using nth [OF that] by (simp add: fr)
  have l: "length (sql_fragments strings args) = 2 * length args + 1"
    using len by (simp add: fr)
  have "sql_fragments strings args \<noteq> []"
    using l by auto
  then have "last (sql_fragments strings args) = sql_fragments strings args ! (2 * length args)"
    using l by (simp add: last_conv_nth)
  also have "\<dots> = StringFragment (Some (strings ! length args))"
    by (rule even) simp
  also have "strings ! length args = last strings"
    using assms by (cases strings rule: rev_cases) (simp_all add: nth_append)
  finally have la: "last (sql_fragments strings args) = StringFragment (Some (last strings))" .
  show ?thesis
    using l even odd la by (simp add: sql_def)
qed

theorem sql_fragments_alternate_witness:
  "length [''SELECT '', '' FROM t WHERE id = '', []]
     = Suc (length [SrcFragment (IdentifierFragment ''x''), SrcValue (VNumber 3) :: obj source])
   \<and> length (sql_fragments [''SELECT '', '' FROM t WHERE id = '', []]
        [SrcFragment (IdentifierFragment ''x''), SrcValue (VNumber 3) :: obj source]) = 5
   \<and> sql_fragments [''SELECT '', '' FROM t WHERE id = '', []]
        [SrcFragment (IdentifierFragment ''x''), SrcValue (VNumber 3) :: obj source] ! 0
       = StringFragment (Some ''SELECT '')
   \<and> sql_fragments [''SELECT '', '' FROM t WHERE id = '', []]
        [SrcFragment (IdentifierFragment ''x''), SrcValue (VNumber 3) :: obj source] ! 1
       = IdentifierFragment ''x''
   \<and> sql_fragments [''SELECT '', '' FROM t WHERE id = '', []]
        [SrcFragment (IdentifierFragment ''x''), SrcValue (VNumber 3) :: obj source] ! 2
       = StringFragment (Some '' FROM t WHERE id = '')
   \<and> sql_fragments [''SELECT '', '' FROM t WHERE id = '', []]
        [SrcFragment (IdentifierFragment ''x''), SrcValue (VNumber 3) :: obj source] ! 3
       = ValueFragment (VNumber 3)
   \<and> sql_fragments [''SELECT '', '' FROM t WHERE id = '', []]
        [SrcFragment (IdentifierFragment ''x''), SrcValue (VNumber 3) :: obj source] ! 4
       = StringFragment (Some [])
   \<and> last (sql_fragments [''SELECT '', '' FROM t WHERE id = '', []]
        [SrcFragment (IdentifierFragment ''x''), SrcValue (VNumber 3) :: obj source])
       = StringFragment (Some [])"
proof -
  let ?strings = "[''SELECT '', '' FROM t WHERE id = '', []]"
  let ?args = "[SrcFragment (IdentifierFragment ''x''), SrcValue (VNumber 3) :: obj source]"
  have h: "length ?strings = Suc (length ?args)"
    by simp
  note t = sql_fragments_alternate [OF h]
  have len: "length (sql_fragments ?strings ?args) = 5"
    using t by simp
  have even: "sql_fragments ?strings ?args ! (2 * i) = StringFragment (Some (?strings ! i))"
    if "i \<le> 2" for i
    using t that by simp
  have odd: "sql_fragments ?strings ?args ! (2 * i + 1) = Fragment_from (?args ! i)"
    if "i < 2" for i
    using t that by simp
  have la: "last (sql_fragments ?strings ?args) = StringFragment (Some [])"
    using t by simp
  show ?thesis
    using h len even [of 0] even [of 1] even [of 2] odd [of 0] odd [of 1] la
    by simp
qed

section \<open>Executing a query\<close>

lemma execute_no_options:
  "execute conn None name q accessors arg =
     conn \<lparr>config_name = name, config_text = q,
           config_values =
             map (\<lambda>accessor. accessor (case arg of None \<Rightarrow> Map.empty | Some v \<Rightarrow> v)) accessors\<rparr>"
  by (cases "conn \<lparr>config_name = name, config_text = q,
           config_values =
             map (\<lambda>accessor. accessor (case arg of None \<Rightarrow> Map.empty | Some v \<Rightarrow> v)) accessors\<rparr>")
     (simp_all add: execute_def)

lemma fixed_values_accessors:
  "map (\<lambda>accessor. accessor x)
     (snd (staticPrepare fmt
        (concat (map (\<lambda>(index, arg). [Fragment_from arg, StringFragment (S index)])
           (enumerate n (map SrcValue vs)))) k)) = vs"
proof (induction vs arbitrary: n k)
  case Nil
  show ?case by (simp add: staticPrepare_Nil)
next
  case (Cons v vs)
  show ?case
    using Cons.IH [of "Suc n" "Suc k"] by (simp add: staticPrepare_Cons)
qed

lemma sql_fixed_values:
  "map (\<lambda>accessor. accessor x)
     (snd (staticPrepare fmt (sql_fragments strings (map SrcValue vs)) k)) = vs"
  using fixed_values_accessors [of x fmt "\<lambda>index. js_index strings (index + 1)" 0 vs k]
  by (simp add: sql_fragments_def staticPrepare_Cons)

text \<open>
  Claim C10. The function that \<open>query\<close> returns may be called with no argument: the
  empty object takes its place and every accessor is applied to it. A query built from
  plain values only, whose accessors do not look at their argument, then sends the
  client these values, in order, and returns what the client answers.
\<close>

theorem execute_default_argument:
  "query fmt name b conn options None = query fmt name b conn options (Some Map.empty)
   \<and> execute conn options name q accessors None =
       (case conn \<lparr>config_name = name, config_text = q,
                   config_values = map (\<lambda>accessor. accessor Map.empty) accessors\<rparr> of
          Inl e \<Rightarrow> Inl e
        | Inr rows \<Rightarrow>
            (case (case options of None \<Rightarrow> None | Some opts \<Rightarrow> validate opts) of
               Some guard \<Rightarrow> validate_rows guard 0 rows
             | None \<Rightarrow> Inr rows))
   \<and> query fmt name (sql strings (map SrcValue vs)) conn None None =
       conn \<lparr>config_name = name,
             config_text =
               fst (staticPrepare fmt (sql_fragments strings (map SrcValue vs) :: obj fragment list) 1),
             config_values = vs\<rparr>"
proof -
  have 1: "query fmt name b conn options None = query fmt name b conn options (Some Map.empty)"
    by (cases b) (simp add: execute_def split_beta)
  have 2: "execute conn options name q accessors None =
       (case conn \<lparr>config_name = name, config_text = q,
                   config_values = map (\<lambda>accessor. accessor Map.empty) accessors\<rparr> of
          Inl e \<Rightarrow> Inl e
        | Inr rows \<Rightarrow>
            (case (case options of None \<Rightarrow> None | Some opts \<Rightarrow> validate opts) of
               Some guard \<Rightarrow> validate_rows guard 0 rows
             | None \<Rightarrow> Inr rows))"
    by (simp add: execute_def)
  have 3: "query fmt name (sql strings (map SrcValue vs)) conn None None =
       conn \<lparr>config_name = name,
             config_text =
               fst (staticPrepare fmt (sql_fragments strings (map SrcValue vs) :: obj fragment list) 1),
             config_values = vs\<rparr>"
    by (simp add: sql_def execute_no_options split_beta sql_fixed_values)
  from 1 2 3 show ?thesis by blast
qed

lemma staticPrepare_append:
  "staticPrepare fmt (xs @ ys) k =
     (fst (staticPrepare fmt xs k)
        @ fst (staticPrepare fmt ys (k + length (snd (staticPrepare fmt xs k)))),
      snd (staticPrepare fmt xs k)
        @ snd (staticPrepare fmt ys (k + length (snd (staticPrepare fmt xs k)))))"
proof (induction xs arbitrary: k)
  case Nil
  show ?case by (simp add: staticPrepare_Nil)
next
  case (Cons x xs)
  show ?case
    unfolding append_Cons staticPrepare_Cons [of fmt x] Cons.IH fst_conv snd_conv
    by (simp add: add.assoc)
qed

text \<open>
  Claim C2. A build method embedded in a template has its placeholders numbered from
  the position where it stands, and the placeholders after it are numbered on from
  there. With \<open>inner = sql`INNER ${1} ${2}`\<close>, the query \<open>sql`OUTER (${inner}) ${3}`\<close>
  sends the text \<open>OUTER (INNER $1 $2) $3\<close> with the values \<open>[1, 2, 3]\<close>, and
  \<open>sql`OUTER ${3} (${inner})`\<close> sends \<open>OUTER $1 (INNER $2 $3)\<close> with \<open>[3, 1, 2]\<close>.
  \<open>format.string\<close> is taken to return a string as it is.
\<close>

theorem nested_placeholders:
  assumes "string_verbatim fmt"
  shows "query fmt name
           (sql [''OUTER ('', '') '', []]
              [SrcBuildMethod (sql [''INNER '', '' '', []]
                                 [SrcValue (VNumber 1), SrcValue (VNumber 2)]),
               SrcValue (VNumber 3)])
           conn None arg =
         conn \<lparr>config_name = name, config_text = ''OUTER (INNER $1 $2) $3'',
               config_values = [VNumber 1, VNumber 2, VNumber 3]\<rparr>
      \<and> query fmt name
           (sql [''OUTER '', '' ('', '')'']
              [SrcValue (VNumber 3),
               SrcBuildMethod (sql [''INNER '', '' '', []]
                                 [SrcValue (VNumber 1), SrcValue (VNumber 2)])])
           conn None arg =
         conn \<lparr>config_name = name, config_text = ''OUTER $1 (INNER $2 $3)'',
               config_values = [VNumber 3, VNumber 1, VNumber 2]\<rparr>
      \<and> fst (staticPrepare fmt (before @ QueryFragment inner # after) k) =
          fst (staticPrepare fmt before k)
          @ fst (staticPrepare fmt inner (k + length (snd (staticPrepare fmt before k))))
          @ fst (staticPrepare fmt after
                   (k + length (snd (staticPrepare fmt before k))
                      + length (snd (staticPrepare fmt inner k))))"
proof -
  have v: "format_string fmt (Some s) = s" for s
    using assms by (simp add: string_verbatim_def)
  have 1: "query fmt name
           (sql [''OUTER ('', '') '', []]
              [SrcBuildMethod (sql [''INNER '', '' '', []]
                                 [SrcValue (VNumber 1), SrcValue (VNumber 2)]),
               SrcValue (VNumber 3)])
           conn None arg =
         conn \<lparr>config_name = name, config_text = ''OUTER (INNER $1 $2) $3'',
               config_values = [VNumber 1, VNumber 2, VNumber 3]\<rparr>"
    by (simp add: sql_def sql_fragments_def js_index_def staticPrepare_Cons staticPrepare_Nil
        execute_no_options v string_of_nat.simps digit_char_def)
  have 2: "query fmt name
           (sql [''OUTER '', '' ('', '')'']
              [SrcValue (VNumber 3),
               SrcBuildMethod (sql [''INNER '', '' '', []]
                                 [SrcValue (VNumber 1), SrcValue (VNumber 2)])])
           conn None arg =
         conn \<lparr>config_name = name, config_text = ''OUTER $1 (INNER $2 $3)'',
               config_values = [VNumber 3, VNumber 1, VNumber 2]\<rparr>"
    by (simp add: sql_def sql_fragments_def js_index_def staticPrepare_Cons staticPrepare_Nil
        execute_no_options v string_of_nat.simps digit_char_def)
  have n: "length (snd (staticPrepare fmt inner (k + length (snd (staticPrepare fmt before k))))) =
      length (snd (staticPrepare fmt inner k))"
    using accessors_offset
      [of fmt "QueryFragment inner" "k + length (snd (staticPrepare fmt before k))" k]
    by simp
  have 3: "fst (staticPrepare fmt (before @ QueryFragment inner # after) k) =
          fst (staticPrepare fmt before k)
          @ fst (staticPrepare fmt inner (k + length (snd (staticPrepare fmt before k))))
          @ fst (staticPrepare fmt after
                   (k + length (snd (staticPrepare fmt before k))
                      + length (snd (staticPrepare fmt inner k))))"
    by (simp add: staticPrepare_append staticPrepare_Cons n)
  from 1 2 3 show ?thesis by blast
qed

theorem nested_placeholders_witness:
  "\<forall>literal ident.
     string_verbatim (verbatim_format literal ident)
   \<and> query (verbatim_format literal ident) ''c0ffee''
        (sql [''OUTER ('', '') '', []]
           [SrcBuildMethod (sql [''INNER '', '' '', []]
                              [SrcValue (VNumber 1), SrcValue (VNumber 2)]),
            SrcValue (VNumber 3)])
        (\<lambda>config. Inr [config]) None None =
      Inr [\<lparr>config_name = ''c0ffee'', config_text = ''OUTER (INNER $1 $2) $3'',
            config_values = [VNumber 1, VNumber 2, VNumber 3]\<rparr>]
   \<and> query (verbatim_format literal ident) ''c0ffee''
        (sql [''OUTER '', '' ('', '')'']
           [SrcValue (VNumber 3),
            SrcBuildMethod (sql [''INNER '', '' '', []]
                              [SrcValue (VNumber 1), SrcValue (VNumber 2)])])
        (\<lambda>config. Inr [config]) None None =
      Inr [\<lparr>config_name = ''c0ffee'', config_text = ''OUTER $1 (INNER $2 $3)'',
            config_values = [VNumber 3, VNumber 1, VNumber 2]\<rparr>]"
proof (intro allI)
  fix literal ident
  have h: "string_verbatim (verbatim_format literal ident)"
    by (rule string_verbatim_format)
  show "string_verbatim (verbatim_format literal ident)
   \<and> query (verbatim_format literal ident) ''c0ffee''
        (sql [''OUTER ('', '') '', []]
           [SrcBuildMethod (sql [''INNER '', '' '', []]
                              [SrcValue (VNumber 1), SrcValue (VNumber 2)]),
            SrcValue (VNumber 3)])
        (\<lambda>config. Inr [config]) None None =
      Inr [\<lparr>config_name = ''c0ffee'', config_text = ''OUTER (INNER $1 $2) $3'',
            config_values = [VNumber 1, VNumber 2, VNumber 3]\<rparr>]
   \<and> query (verbatim_format literal ident) ''c0ffee''
        (sql [''OUTER '', '' ('', '')'']
           [SrcValue (VNumber 3),
            SrcBuildMethod (sql [''INNER '', '' '', []]
                              [SrcValue (VNumber 1), SrcValue (VNumber 2)])])
        (\<lambda>config. Inr [config]) None None =
      Inr [\<lparr>config_name = ''c0ffee'', config_text = ''OUTER $1 (INNER $2 $3)'',
            config_values = [VNumber 3, VNumber 1, VNumber 2]\<rparr>]"
    using h nested_placeholders [OF h, where name = "''c0ffee''" and arg = None
        and conn = "\<lambda>config. Inr [config]" and before = "[] :: obj fragment list"
        and inner = "[]" and after = "[]" and k = 0]
    by simp
qed

lemma validate_rows_eq:
  "validate_rows guard k rows =
     (if list_all guard rows then Inr rows
      else Inl (TypeError (''Row '' @ string_of_nat (k + length (takeWhile guard rows))
                            @ '' is invalid'')))"
  by (induction rows arbitrary: k) simp_all

lemma first_rejected:
  "\<not> list_all guard rows \<Longrightarrow>
     length (takeWhile guard rows) < length rows
     \<and> \<not> guard (rows ! length (takeWhile guard rows))
     \<and> list_all guard (take (length (takeWhile guard rows)) rows)"
  by (induction rows) auto

lemma execute_Inr:
  assumes "conn \<lparr>config_name = name, config_text = q,
             config_values =
               map (\<lambda>accessor. accessor (case arg of None \<Rightarrow> Map.empty | Some v \<Rightarrow> v)) accessors\<rparr>
           = Inr rows"
  shows "execute conn options name q accessors arg =
     (case (case options of None \<Rightarrow> None | Some opts \<Rightarrow> validate opts) of
        Some guard \<Rightarrow> validate_rows guard 0 rows
      | None \<Rightarrow> Inr rows)"
  using assms by (simp add: execute_def)

text \<open>
  Claim C7. When the client has answered with rows: without a type guard in the options
  the rows are returned as they are; with a guard that accepts every row they are
  returned as they are; with a guard that rejects a row the call fails with the
  \<open>TypeError\<close> that names the index of the first rejected row, and returns no row.
\<close>

theorem row_validation:
  assumes "staticPrepare fmt fragments 1 = (q, accessors)"
    and "conn \<lparr>config_name = name, config_text = q,
             config_values =
               map (\<lambda>accessor. accessor (case arg of None \<Rightarrow> Map.empty | Some v \<Rightarrow> v)) accessors\<rparr>
           = Inr rows"
  shows "query fmt name (BuildMethod fragments) conn None arg = Inr rows
    \<and> query fmt name (BuildMethod fragments) conn (Some \<lparr>validate = None\<rparr>) arg = Inr rows
    \<and> (list_all guard rows \<longrightarrow>
         query fmt name (BuildMethod fragments) conn (Some \<lparr>validate = Some guard\<rparr>) arg
           = Inr rows)
    \<and> (\<not> list_all guard rows \<longrightarrow>
         query fmt name (BuildMethod fragments) conn (Some \<lparr>validate = Some guard\<rparr>) arg
           = Inl (TypeError (''Row '' @ string_of_nat (length (takeWhile guard rows))
                              @ '' is invalid''))
         \<and> length (takeWhile guard rows) < length rows
         \<and> \<not> guard (rows ! length (takeWhile guard rows))
         \<and> list_all guard (take (length (takeWhile guard rows)) rows))"
proof -
  have e: "execute conn options name q accessors arg =
     (case (case options of None \<Rightarrow> None | Some opts \<Rightarrow> validate opts) of
        Some guard \<Rightarrow> validate_rows guard 0 rows
      | None \<Rightarrow> Inr rows)" for options
    using assms(2) by (rule execute_Inr)
  show ?thesis
    using assms(1) first_rejected [of guard rows]
    by (simp add: e validate_rows_eq)
qed

theorem row_validation_witness:
  "\<forall>literal ident.
     query (verbatim_format literal ident) ''c0ffee'' (sql [''QUERY''] [])
       (\<lambda>config. Inr [10, 20 :: nat]) (Some \<lparr>validate = Some (\<lambda>row. row < 15)\<rparr>) None
       = Inl (TypeError ''Row 1 is invalid'')
   \<and> query (verbatim_format literal ident) ''c0ffee'' (sql [''QUERY''] [])
       (\<lambda>config. Inr [10, 20 :: nat]) (Some \<lparr>validate = Some (\<lambda>row. row < 25)\<rparr>) None
       = Inr [10, 20]
   \<and> query (verbatim_format literal ident) ''c0ffee'' (sql [''QUERY''] [])
       (\<lambda>config. Inr [10, 20 :: nat]) None None
       = Inr [10, 20]"
proof (intro allI)
  fix literal ident
  let ?fmt = "verbatim_format literal ident"
  let ?conn = "\<lambda>config :: QueryConfig. (Inr [10, 20 :: nat] :: error + nat list)"
  have p: "staticPrepare ?fmt [StringFragment (Some ''QUERY'')] 1 = (''QUERY'', [])"
    by (simp add: staticPrepare_Cons staticPrepare_Nil verbatim_format_def)
  have a: "?conn \<lparr>config_name = ''c0ffee'', config_text = ''QUERY'',
             config_values =
               map (\<lambda>accessor. accessor (case None of None \<Rightarrow> Map.empty | Some v \<Rightarrow> v)) []\<rparr>
           = Inr [10, 20]"
    by simp
  have s: "sql [''QUERY''] [] = BuildMethod [StringFragment (Some ''QUERY'')]"
    by (simp add: sql_def sql_fragments_def js_index_def)
  show "query ?fmt ''c0ffee'' (sql [''QUERY''] [])
       ?conn (Some \<lparr>validate = Some (\<lambda>row. row < 15)\<rparr>) None
       = Inl (TypeError ''Row 1 is invalid'')
   \<and> query ?fmt ''c0ffee'' (sql [''QUERY''] [])
       ?conn (Some \<lparr>validate = Some (\<lambda>row. row < 25)\<rparr>) None
       = Inr [10, 20]
   \<and> query ?fmt ''c0ffee'' (sql [''QUERY''] [])
       ?conn None None
       = Inr [10, 20]"
    using row_validation [OF p a, where guard = "\<lambda>row. row < 15"]
      row_validation [OF p a, where guard = "\<lambda>row. row < 25"]
    unfolding s
    by (simp add: string_of_nat.simps digit_char_def)
qed

section \<open>\<open>Fragment.from\<close> on a fragment\<close>

text \<open>What \<open>Fragment.from\<close> does on references is what it does on fragments: the
  reference it returns stands, in the heap it returns, for the fragment made of the
  source.\<close>

lemma fragment_at_deeper:
  "fragment_at d h r = Some f \<Longrightarrow> fragment_at (Suc d) h r = Some f"
proof (induction d arbitrary: r f)
  case 0
  then show ?case by simp
next
  case (Suc d)
  from Suc.prems have r: "r < length h"
    by (simp split: if_splits)
  show ?case
  proof (cases "h ! r")
    case (ObjQueryFragment fragments)
    from Suc.prems r ObjQueryFragment
    have all: "list_all (\<lambda>x. fragment_at d h x \<noteq> None) fragments"
      and f: "f = QueryFragment (map (\<lambda>x. the (fragment_at d h x)) fragments)"
      by (simp_all split: if_splits)
    have same: "fragment_at (Suc d) h x = fragment_at d h x" if "x \<in> set fragments" for x
    proof -
      from all that obtain g where "fragment_at d h x = Some g"
        by (auto simp: list_all_iff)
      then show ?thesis using Suc.IH [of x g] by simp
    qed
    have all': "list_all (\<lambda>x. fragment_at (Suc d) h x \<noteq> None) fragments"
      using all same by (simp add: list_all_iff)
    have m: "map (\<lambda>x. the (fragment_at (Suc d) h x)) fragments =
             map (\<lambda>x. the (fragment_at d h x)) fragments"
      using same by (simp cong: map_cong)
    show ?thesis
      unfolding fragment_at.simps(2) [of "Suc d"]
      using r ObjQueryFragment all' m f by (simp del: fragment_at.simps)
  qed (use Suc.prems r in \<open>simp_all split: if_splits\<close>)
qed

lemma fragment_at_extend:
  "fragment_at d h r = Some f \<Longrightarrow> fragment_at d (h @ ext) r = Some f"
proof (induction d arbitrary: r f)
  case 0
  then show ?case by simp
next
  case (Suc d)
  from Suc.prems have r: "r < length h"
    by (simp split: if_splits)
  then have nth: "(h @ ext) ! r = h ! r"
    by (simp add: nth_append)
  show ?case
  proof (cases "h ! r")
    case (ObjQueryFragment fragments)
    from Suc.prems r ObjQueryFragment
    have all: "list_all (\<lambda>x. fragment_at d h x \<noteq> None) fragments"
      and f: "f = QueryFragment (map (\<lambda>x. the (fragment_at d h x)) fragments)"
      by (simp_all split: if_splits)
    have same: "fragment_at d (h @ ext) x = fragment_at d h x" if "x \<in> set fragments" for x
    proof -
      from all that obtain g where "fragment_at d h x = Some g"
        by (auto simp: list_all_iff)
      then show ?thesis using Suc.IH [of x g] by simp
    qed
    have all': "list_all (\<lambda>x. fragment_at d (h @ ext) x \<noteq> None) fragments"
      using all same by (simp add: list_all_iff)
    have m: "map (\<lambda>x. the (fragment_at d (h @ ext) x)) fragments =
             map (\<lambda>x. the (fragment_at d h x)) fragments"
      using same by (simp cong: map_cong)
    show ?thesis
      using r ObjQueryFragment all' m f nth by simp
  qed (use Suc.prems r nth in \<open>simp_all split: if_splits\<close>)
qed

lemma Fragment_from_ref_refines:
  assumes "source_at d h s = Some src"
  shows "fragment_at (Suc d) (snd (Fragment_from_ref h s)) (fst (Fragment_from_ref h s))
           = Some (Fragment_from src)"
proof (cases s)
  case (RefFragment r)
  with assms obtain f where "fragment_at d h r = Some f" and "src = SrcFragment f"
    by auto
  then show ?thesis
    using RefFragment fragment_at_deeper [of d h r f] by simp
next
  case (RefBuildMethod fragments)
  with assms have all: "list_all (\<lambda>x. fragment_at d h x \<noteq> None) fragments"
    and src: "src = SrcBuildMethod (BuildMethod (map (\<lambda>x. the (fragment_at d h x)) fragments))"
    by (simp_all split: if_splits)
  have same: "fragment_at d (h @ [ObjQueryFragment fragments]) x = fragment_at d h x"
    if "x \<in> set fragments" for x
  proof -
    from all that obtain g where "fragment_at d h x = Some g"
      by (auto simp: list_all_iff)
    then show ?thesis using fragment_at_extend [of d h x g] by simp
  qed
  have all': "list_all (\<lambda>x. fragment_at d (h @ [ObjQueryFragment fragments]) x \<noteq> None) fragments"
    using all same by (simp add: list_all_iff)
  have m: "map (\<lambda>x. the (fragment_at d (h @ [ObjQueryFragment fragments]) x)) fragments =
           map (\<lambda>x. the (fragment_at d h x)) fragments"
    using same by (simp cong: map_cong)
  show ?thesis
    using RefBuildMethod src all' m by (simp add: new_def)
next
  case (RefAccessor accessor)
  with assms show ?thesis by (auto simp: new_def)
next
  case (RefValue v)
  with assms show ?thesis by (auto simp: new_def)
qed

text \<open>
  Claim C9. \<open>Fragment.from\<close> returns a fragment that it is given, in both editions, and
  doing so again still returns it. On references: it returns the reference it was
  given and allocates nothing, so no copy exists; two templates that embed the same
  reference both hold it, and what the heap held before is still there.
\<close>

theorem Fragment_from_identity:
  "Fragment_from (SrcFragment f) = f
   \<and> Fragment_from (SrcFragment (Fragment_from (SrcFragment f))) = f
   \<and> index_Fragment_from (IndexSrcFragment g) = g
   \<and> index_Fragment_from (IndexSrcFragment (index_Fragment_from (IndexSrcFragment g))) = g
   \<and> Fragment_from_ref h (RefFragment r) = (r, h)
   \<and> index_Fragment_from_ref h (RefFragment r) = (r, h)
   \<and> (case Fragment_from_ref h (RefFragment r) of
         (r', h') \<Rightarrow> Fragment_from_ref h' (RefFragment r')) = (r, h)
   \<and> sql_fragments_ref h [s0, s1] [RefFragment r] =
       ([length h, r, Suc (length h)],
        h @ [ObjStringFragment (Some s0), ObjStringFragment (Some s1)])
   \<and> sql_fragments_ref (h @ [ObjStringFragment (Some s0), ObjStringFragment (Some s1)])
        [t0, t1] [RefFragment r] =
       ([Suc (Suc (length h)), r, Suc (Suc (Suc (length h)))],
        h @ [ObjStringFragment (Some s0), ObjStringFragment (Some s1),
             ObjStringFragment (Some t0), ObjStringFragment (Some t1)])"
  by (simp add: sql_fragments_ref_def new_def js_index_def)

end
